theory Spec2Isabelle
  imports Main "HOL-Library.Product_Lexorder" "HOL-Library.List_Lexorder" "HOL-Library.Char_ord"
begin

section \<open>Paths\<close>

text \<open>
  A \<open>pathlib.Path\<close> is used by the program only in resolved, absolute form.  It is
  modelled by the list of its components below the filesystem root, so that two paths
  are equal exactly when their components are, \<open>len(path.parents)\<close> is the number of
  components, and \<open>Path(p, a, b)\<close> is \<open>p @ [a, b]\<close>.  Strings are lists of characters.
\<close>

type_synonym path = "string list"

definition name :: "path \<Rightarrow> string" where
  "name p = (if p = [] then [] else last p)"

definition parents :: "path \<Rightarrow> path list" where
  "parents p = map (\<lambda>k. take k p) (rev [0..<length p])"

text \<open>\<open>str.rfind\<close>: the highest index of the character, \<open>None\<close> for Python's \<open>-1\<close>.\<close>

fun rfind :: "char \<Rightarrow> string \<Rightarrow> nat option" where
  "rfind c [] = None"
| "rfind c (x # xs) =
     (case rfind c xs of
        Some i \<Rightarrow> Some (Suc i)
      | None \<Rightarrow> if x = c then Some 0 else None)"

text \<open>\<open>str.split\<close> with a one-character separator: never an empty result.\<close>

fun split :: "char \<Rightarrow> string \<Rightarrow> string list" where
  "split c [] = [[]]"
| "split c (x # xs) =
     (if x = c then [] # split c xs
      else (case split c xs of
              [] \<Rightarrow> [[x]]
            | w # ws \<Rightarrow> (x # w) # ws))"

definition endswith :: "string \<Rightarrow> string \<Rightarrow> bool" where
  "endswith s t = (length t \<le> length s \<and> drop (length s - length t) s = t)"

definition lstrip :: "char \<Rightarrow> string \<Rightarrow> string" where
  "lstrip c s = dropWhile (\<lambda>x. x = c) s"

text \<open>
  \<open>PurePath.suffix\<close>, \<open>PurePath.stem\<close> and \<open>PurePath.suffixes\<close>, as pathlib defines them
  on the final component: the suffix starts at the last dot, unless that dot is the
  first or the last character of the name; the suffixes are the dot-separated parts
  after the first, leading dots apart, and a name that ends in a dot has none.
\<close>

definition suffix :: "path \<Rightarrow> string" where
  "suffix p =
     (case rfind CHR ''.'' (name p) of
        None \<Rightarrow> []
      | Some i \<Rightarrow> if 0 < i \<and> Suc i < length (name p) then drop i (name p) else [])"

definition stem :: "path \<Rightarrow> string" where
  "stem p =
     (case rfind CHR ''.'' (name p) of
        None \<Rightarrow> name p
      | Some i \<Rightarrow> if 0 < i \<and> Suc i < length (name p) then take i (name p) else name p)"

definition suffixes :: "path \<Rightarrow> string list" where
  "suffixes p =
     (if endswith (name p) ''.'' then []
      else map (\<lambda>s. CHR ''.'' # s) (tl (split CHR ''.'' (lstrip CHR ''.'' (name p)))))"

section \<open>Mutation commands and their simulation\<close>

datatype error =
    FileExistsError
  | FileNotFoundError
  | IsADirectoryError
  | NotADirectoryError
  | OSError
  | KeyError
  | SystemExit

datatype command =
    MakeDirectory path
  | Move path path
  | Remove path

text \<open>
  The simulacrum is a Python list of paths, mutated in place with \<open>append\<close> and
  \<open>remove\<close> (which deletes the first occurrence).  \<open>Command.simulate\<close> is modelled by
  state passing: it returns the exception raised, if any, together with the
  simulacrum as the call leaves it.
\<close>

type_synonym simulacrum = "path list"

fun simulate :: "command \<Rightarrow> simulacrum \<Rightarrow> error option \<times> simulacrum" where
  "simulate (MakeDirectory directory) simulacrum =
     (if directory \<in> set simulacrum then (Some FileExistsError, simulacrum)
      else (None, simulacrum @ [directory]))"
| "simulate (Move source dest) simulacrum =
     (if source \<notin> set simulacrum then (Some FileNotFoundError, simulacrum)
      else if dest \<in> set simulacrum then (Some FileExistsError, simulacrum)
      else (None, remove1 source (simulacrum @ [dest])))"
| "simulate (Remove target) simulacrum =
     (if target \<notin> set simulacrum then (Some FileNotFoundError, simulacrum)
      else if length (suffixes target) = 0 then (Some IsADirectoryError, simulacrum)
      else (None, remove1 target simulacrum))"

text \<open>
  The loop of \<open>Organizer.simulate\<close>: the commands are simulated in order and the first
  exception leaves the loop.
\<close>

fun simulate_commands :: "command list \<Rightarrow> simulacrum \<Rightarrow> error option \<times> simulacrum" where
  "simulate_commands [] simulacrum = (None, simulacrum)"
| "simulate_commands (cmd # cmds) simulacrum =
     (case simulate cmd simulacrum of
        (Some e, simulacrum') \<Rightarrow> (Some e, simulacrum')
      | (None, simulacrum') \<Rightarrow> simulate_commands cmds simulacrum')"

section \<open>Photo records\<close>

text \<open>
  A naive \<open>datetime.datetime\<close>: year, month, day, hour, minute, second, microsecond.
  Python compares two naive datetimes as it compares these seven numbers in order.
\<close>

datatype datetime = DateTime nat nat nat nat nat nat nat

fun dt_tuple :: "datetime \<Rightarrow> nat \<times> nat \<times> nat \<times> nat \<times> nat \<times> nat \<times> nat" where
  "dt_tuple (DateTime y mo d h mi s us) = (y, mo, d, h, mi, s, us)"

definition dt_less :: "datetime \<Rightarrow> datetime \<Rightarrow> bool" where
  "dt_less a b = (dt_tuple a < dt_tuple b)"

fun year :: "datetime \<Rightarrow> nat" where
  "year (DateTime y mo d h mi s us) = y"

fun month :: "datetime \<Rightarrow> nat" where
  "month (DateTime y mo d h mi s us) = mo"

datatype source = Mtime | Filename | Exif | User

text \<open>
  The dictionaries \<open>hashes\<close> and \<open>exif\<close> are association lists in insertion order, as
  Python dictionaries are; the program only ever adds keys that are absent.
\<close>

record photo =
  path :: path
  psize :: nat
  hashes :: "(string \<times> string) list"
  datetime :: datetime
  datetime_src :: source
  exif :: "(string \<times> string) list"

text \<open>\<open>Photo.__lt__\<close>\<close>

definition lt :: "photo \<Rightarrow> photo \<Rightarrow> bool" where
  "lt self other =
     (if datetime self \<noteq> datetime other then dt_less (datetime self) (datetime other)
      else if length (parents (path self)) \<noteq> length (parents (path other))
        then length (parents (path self)) > length (parents (path other))
      else name (path self) < name (path other))"


section \<open>The collaborators\<close>

text \<open>
  What the program obtains from libraries, from the file contents and from the user is
  a parameter of the model:
  \<^item> \<open>file_bytes\<close>: what \<open>open(path, 'rb').read()\<close> returns;
  \<^item> \<open>hexdigest alg d\<close>: \<open>hashlib.new(alg, d).hexdigest()\<close>;
  \<^item> \<open>fromisoformat\<close>: \<open>datetime.fromisoformat\<close>, \<open>None\<close> when it raises \<open>ValueError\<close>;
  \<^item> \<open>strptime\<close>: \<open>datetime.strptime\<close> with the fixed format \<open>%Y:%m:%d %H:%M:%S\<close>,
    \<open>None\<close> when it raises \<open>ValueError\<close>;
  \<^item> \<open>datetime_uncertain\<close> and \<open>duplicate_found\<close>: the answer on which the prompt
    loops of \<open>UserPrompter\<close> end.

  The libraries are taken with the outcomes that the source provides for: a parser
  returns a time or raises \<open>ValueError\<close>, Pillow returns the tags or raises
  \<open>UnidentifiedImageError\<close>, a tag value is a string, a digest is computed for every
  algorithm name.  A file that cannot be read is outside the model.
\<close>

datatype time_answer = KeepTime | InputTime datetime | AbortTime

datatype dup_answer = KeepDup | DeleteDup | AbortDup

record env =
  file_bytes :: "path \<Rightarrow> nat list"
  hexdigest :: "string \<Rightarrow> nat list \<Rightarrow> string"
  fromisoformat :: "string \<Rightarrow> datetime option"
  strptime :: "string \<Rightarrow> datetime option"
  datetime_uncertain :: "photo \<Rightarrow> time_answer"
  duplicate_found :: "photo \<Rightarrow> photo \<Rightarrow> dup_answer"

section \<open>Lazy digests\<close>

text \<open>
  \<open>get_hash\<close> mutates the record it is called on, and \<open>is_duplicate_of\<close> may be given
  the same object twice, so photo objects live in a store addressed by references.
  The store also logs every read of a file's content: the reference of the record and
  the algorithm the content was hashed with.
\<close>

type_synonym ref = nat

record heap =
  objs :: "ref \<Rightarrow> photo"
  reads :: "(ref \<times> string) list"

definition get_hash :: "env \<Rightarrow> string \<Rightarrow> ref \<Rightarrow> heap \<Rightarrow> string \<times> heap" where
  "get_hash E hash_algorithm self h =
     (case map_of (hashes (objs h self)) hash_algorithm of
        Some d \<Rightarrow> (d, h)
      | None \<Rightarrow>
          (let d = hexdigest E hash_algorithm (file_bytes E (path (objs h self)));
               self' = (objs h self)\<lparr>hashes := hashes (objs h self) @ [(hash_algorithm, d)]\<rparr>
           in (d, h\<lparr>objs := (objs h)(self := self'),
                    reads := reads h @ [(self, hash_algorithm)]\<rparr>)))"

definition is_duplicate_of :: "env \<Rightarrow> string \<Rightarrow> ref \<Rightarrow> ref \<Rightarrow> heap \<Rightarrow> bool \<times> heap" where
  "is_duplicate_of E hash_algorithm self other h =
     (if psize (objs h self) = psize (objs h other) then
        (let (d1, h1) = get_hash E hash_algorithm self h;
             (d2, h2) = get_hash E hash_algorithm other h1
         in (d1 = d2, h2))
      else (False, h))"

text \<open>The digest a record has in a store: the cached one, or else the one of its file.\<close>

definition digest :: "env \<Rightarrow> string \<Rightarrow> heap \<Rightarrow> ref \<Rightarrow> string" where
  "digest E hash_algorithm h r =
     (case map_of (hashes (objs h r)) hash_algorithm of
        Some d \<Rightarrow> d
      | None \<Rightarrow> hexdigest E hash_algorithm (file_bytes E (path (objs h r))))"

text \<open>Any sequence of calls of the two methods, for the claims about caching.\<close>

datatype call = GetHash string ref | IsDuplicateOf string ref ref

fun do_call :: "env \<Rightarrow> call \<Rightarrow> heap \<Rightarrow> heap" where
  "do_call E (GetHash alg r) h = snd (get_hash E alg r h)"
| "do_call E (IsDuplicateOf alg a b) h = snd (is_duplicate_of E alg a b h)"

fun do_calls :: "env \<Rightarrow> call list \<Rightarrow> heap \<Rightarrow> heap" where
  "do_calls E [] h = h"
| "do_calls E (c # cs) h = do_calls E cs (do_call E c h)"

section \<open>Capture-time resolution\<close>

text \<open>
  What \<open>stat\<close> and Pillow report about a file: its size, its last-modified time as
  \<open>datetime.fromtimestamp\<close> gives it, and either \<open>UnidentifiedImageError\<close> or the decoded
  tags of \<open>getexif()\<close>.
\<close>

datatype image = Unidentified | Identified "(string \<times> string) list"

record finfo =
  st_size :: nat
  st_mtime :: datetime
  image :: image

text \<open>\<open>Photo.__init__\<close>, statement by statement; each \<open>return\<close> of the source is a branch.\<close>

definition Photo :: "env \<Rightarrow> path \<Rightarrow> finfo \<Rightarrow> photo" where
  "Photo E p st =
     (let self = \<lparr>path = p, psize = st_size st, hashes = [],
                  datetime = st_mtime st, datetime_src = Mtime, exif = []\<rparr>;
          self = (if length (stem p) = 23 then
                    (case fromisoformat E (take (length (stem p) - 4) (stem p)) of
                       Some d \<Rightarrow> self\<lparr>datetime := d, datetime_src := Filename\<rparr>
                     | None \<Rightarrow> self)
                  else self)
      in case image st of
           Unidentified \<Rightarrow> self
         | Identified tags \<Rightarrow>
             (let self = self\<lparr>exif := tags\<rparr>;
                  datetime_str =
                    (if map_of tags ''DateTimeOriginal'' \<noteq> None
                       then map_of tags ''DateTimeOriginal''
                     else if map_of tags ''DateTimeDigitized'' \<noteq> None
                       then map_of tags ''DateTimeDigitized''
                     else if map_of tags ''DateTime'' \<noteq> None
                       then map_of tags ''DateTime''
                     else None)
              in case datetime_str of
                   None \<Rightarrow> self
                 | Some s \<Rightarrow>
                     (case strptime E s of
                        Some d \<Rightarrow> self\<lparr>datetime := d, datetime_src := Exif\<rparr>
                      | None \<Rightarrow> self)))"




section \<open>Formatting\<close>

definition digit :: "nat \<Rightarrow> char" where
  "digit d = ''0123456789'' ! d"

fun str_nat :: "nat \<Rightarrow> string" where
  "str_nat n = (if n < 10 then [digit n] else str_nat (n div 10) @ [digit (n mod 10)])"

declare str_nat.simps [simp del]

text \<open>Zero padding to a minimum width, as \<open>{n:03}\<close> and \<open>%02d\<close> do.\<close>

definition zfill :: "nat \<Rightarrow> nat \<Rightarrow> string" where
  "zfill w n = replicate (w - length (str_nat n)) CHR ''0'' @ str_nat n"

text \<open>\<open>datetime.isoformat(sep=' ', timespec='seconds')\<close> of a naive datetime.\<close>

fun isoformat :: "datetime \<Rightarrow> string" where
  "isoformat (DateTime y mo d h mi s us) =
     zfill 4 y @ ''-'' @ zfill 2 mo @ ''-'' @ zfill 2 d @ '' '' @
     zfill 2 h @ '':'' @ zfill 2 mi @ '':'' @ zfill 2 s"

definition datetime_min :: datetime where
  "datetime_min = DateTime 1 1 1 0 0 0 0"

text \<open>
  A month is \<open>datetime.date(year, month, 1)\<close>, kept as the pair of year and month;
  \<open>strftime\<close> is \<open>month.strftime("%Y-%m")\<close>.
\<close>

type_synonym month = "nat \<times> nat"

definition photo_month :: "photo \<Rightarrow> month" where
  "photo_month photo = (year (datetime photo), month (datetime photo))"

definition strftime :: "month \<Rightarrow> string" where
  "strftime m = zfill 4 (fst m) @ ''-'' @ zfill 2 (snd m)"

definition lower_char :: "char \<Rightarrow> char" where
  "lower_char c =
     (if CHR ''A'' \<le> c \<and> c \<le> CHR ''Z'' then char_of (of_char c + (32::nat)) else c)"

definition lower :: "string \<Rightarrow> string" where
  "lower s = map lower_char s"

section \<open>The filesystem\<close>

text \<open>
  The real filesystem is a tree from the root: a directory lists its entries in the
  order in which \<open>iterdir\<close> yields them, a regular file carries what \<open>stat\<close> and Pillow
  report about it, and anything else is neither a file nor a directory.
\<close>

datatype fsnode = FileN finfo | DirN "(string \<times> fsnode) list" | OtherN

fun lookup :: "fsnode \<Rightarrow> path \<Rightarrow> fsnode option" where
  "lookup nd [] = Some nd"
| "lookup (DirN ch) (c # p) =
     (case map_of ch c of None \<Rightarrow> None | Some nd \<Rightarrow> lookup nd p)"
| "lookup nd (c # p) = None"

definition path_exists :: "fsnode \<Rightarrow> path \<Rightarrow> bool" where
  "path_exists fs p = (lookup fs p \<noteq> None)"

fun is_dir_node :: "fsnode \<Rightarrow> bool" where
  "is_dir_node (DirN ch) = True"
| "is_dir_node nd = False"

definition is_dir :: "fsnode \<Rightarrow> path \<Rightarrow> bool" where
  "is_dir fs p = (case lookup fs p of Some nd \<Rightarrow> is_dir_node nd | None \<Rightarrow> False)"

text \<open>
  \<open>Organizer._create_simulacrum\<close>, on the node that the path denotes: every child is
  appended, and the listing of a child that is a directory follows it.
\<close>

fun create_simulacrum_node :: "path \<Rightarrow> fsnode \<Rightarrow> simulacrum" where
  "create_simulacrum_node p (DirN ch) =
     concat (map (\<lambda>(nm, nd).
                (p @ [nm]) # (if is_dir_node nd then create_simulacrum_node (p @ [nm]) nd else []))
             ch)"
| "create_simulacrum_node p nd = []"

definition create_simulacrum :: "fsnode \<Rightarrow> path \<Rightarrow> error + simulacrum" where
  "create_simulacrum fs p =
     (case lookup fs p of
        None \<Rightarrow> Inl FileNotFoundError
      | Some nd \<Rightarrow> if is_dir_node nd then Inr (create_simulacrum_node p nd)
                  else Inl NotADirectoryError)"

text \<open>
  The three system calls behind \<open>execute\<close>.  \<open>put\<close> adds an entry where none is,
  \<open>delete\<close> takes an entry away; both leave the tree alone where the path leads nowhere.
\<close>

fun put :: "fsnode \<Rightarrow> path \<Rightarrow> fsnode \<Rightarrow> fsnode" where
  "put (DirN ch) [c] new = DirN (ch @ [(c, new)])"
| "put (DirN ch) (c # p) new =
     DirN (map (\<lambda>(nm, nd). if nm = c then (nm, put nd p new) else (nm, nd)) ch)"
| "put nd p new = nd"

fun delete :: "fsnode \<Rightarrow> path \<Rightarrow> fsnode" where
  "delete (DirN ch) [c] = DirN (filter (\<lambda>(nm, nd). nm \<noteq> c) ch)"
| "delete (DirN ch) (c # p) =
     DirN (map (\<lambda>(nm, nd). if nm = c then (nm, delete nd p) else (nm, nd)) ch)"
| "delete nd p = nd"

definition mkdir :: "fsnode \<Rightarrow> path \<Rightarrow> error + fsnode" where
  "mkdir fs p =
     (if p = [] \<or> path_exists fs p then Inl FileExistsError
      else if \<not> path_exists fs (butlast p) then Inl FileNotFoundError
      else if \<not> is_dir fs (butlast p) then Inl NotADirectoryError
      else Inr (put fs p (DirN [])))"

definition rename :: "fsnode \<Rightarrow> path \<Rightarrow> path \<Rightarrow> error + fsnode" where
  "rename fs src dst =
     (case lookup fs src of
        None \<Rightarrow> Inl FileNotFoundError
      | Some nd \<Rightarrow>
          if src = [] \<or> dst = [] \<or> take (length src) dst = src then Inl OSError
          else if \<not> path_exists fs (butlast dst) then Inl FileNotFoundError
          else if \<not> is_dir fs (butlast dst) then Inl NotADirectoryError
          else Inr (put (delete fs src) dst nd))"

definition unlink :: "fsnode \<Rightarrow> path \<Rightarrow> error + fsnode" where
  "unlink fs p =
     (if \<not> path_exists fs p then Inl FileNotFoundError
      else if is_dir fs p then Inl IsADirectoryError
      else Inr (delete fs p))"

text \<open>\<open>Command.execute\<close> for the three commands: the checks of the source, then the call.\<close>

fun execute :: "command \<Rightarrow> fsnode \<Rightarrow> error + fsnode" where
  "execute (MakeDirectory directory) fs =
     (if path_exists fs directory then Inl FileExistsError else mkdir fs directory)"
| "execute (Move source dest) fs =
     (if \<not> path_exists fs source then Inl FileNotFoundError
      else if path_exists fs dest then Inl FileExistsError
      else rename fs source dest)"
| "execute (Remove target) fs =
     (if \<not> path_exists fs target then Inl FileNotFoundError
      else if is_dir fs target then Inl IsADirectoryError
      else unlink fs target)"

text \<open>
  The real world of a run: the filesystem and the commands executed on it so far.
  \<open>Organizer.execute\<close> stops at the first exception and undoes nothing.
\<close>

record world =
  files :: fsnode
  executed :: "command list"

fun execute_commands :: "command list \<Rightarrow> world \<Rightarrow> error option \<times> world" where
  "execute_commands [] w = (None, w)"
| "execute_commands (cmd # cmds) w =
     (case execute cmd (files w) of
        Inl e \<Rightarrow> (Some e, w)
      | Inr fs' \<Rightarrow> execute_commands cmds (w\<lparr>files := fs', executed := executed w @ [cmd]\<rparr>))"

section \<open>The planner\<close>

record organizer =
  opath :: path
  hash_algorithm :: string
  extentions :: "string list"

text \<open>
  The planner compares photo objects whose digest caches only \<open>get_hash\<close> writes, so
  that a cached digest is the digest of the file.  Its duplicate test is therefore
  stated on the file contents; \<open>is_duplicate_of\<close> computes it on every store whose
  caches are of that kind (lemma \<open>is_duplicate_of_duplicate\<close>).
\<close>

definition cache_ok :: "env \<Rightarrow> photo \<Rightarrow> bool" where
  "cache_ok E p =
     list_all (\<lambda>(alg, d). d = hexdigest E alg (file_bytes E (path p))) (hashes p)"

definition duplicate :: "env \<Rightarrow> string \<Rightarrow> photo \<Rightarrow> photo \<Rightarrow> bool" where
  "duplicate E alg self other =
     (psize self = psize other \<and>
      hexdigest E alg (file_bytes E (path self)) = hexdigest E alg (file_bytes E (path other)))"

text \<open>
  The state that \<open>prepare\<close> builds up: the dictionary of unique photos by month, the
  command list, and, for the claims about prompting, the pairs (original, duplicate)
  on which \<open>duplicate_found\<close> was asked.
\<close>

record prep =
  unique_photos :: "(month \<times> photo list) list"
  commands :: "command list"
  asked :: "(photo \<times> photo) list"

text \<open>\<open>if photo.datetime_src != "exif": self.prompter.datetime_uncertain(photo)\<close>\<close>

definition prompt_uncertain :: "env \<Rightarrow> photo \<Rightarrow> error + photo" where
  "prompt_uncertain E photo =
     (if datetime_src photo \<noteq> Exif then
        (case datetime_uncertain E photo of
           KeepTime \<Rightarrow> Inr photo
         | InputTime d \<Rightarrow> Inr (photo\<lparr>datetime := d, datetime_src := User\<rparr>)
         | AbortTime \<Rightarrow> Inl SystemExit)
      else Inr photo)"

text \<open>\<open>d.setdefault(k, list()).append(v)\<close> on a dictionary in insertion order.\<close>

fun setdefault_append :: "'k \<Rightarrow> 'v \<Rightarrow> ('k \<times> 'v list) list \<Rightarrow> ('k \<times> 'v list) list" where
  "setdefault_append k v [] = [(k, [v])]"
| "setdefault_append k v ((k', vs) # d) =
     (if k' = k then (k', vs @ [v]) # d else (k', vs) # setdefault_append k v d)"

text \<open>First loop: the children of the target directory.\<close>

fun find_photos ::
  "env \<Rightarrow> organizer \<Rightarrow> (string \<times> fsnode) list \<Rightarrow> path list \<times> (month \<times> photo list) list \<Rightarrow>
   error + path list \<times> (month \<times> photo list) list" where
  "find_photos E org [] (dirs, disorganized_photos) = Inr (dirs, disorganized_photos)"
| "find_photos E org ((nm, DirN ch) # rest) (dirs, disorganized_photos) =
     find_photos E org rest (dirs @ [opath org @ [nm]], disorganized_photos)"
| "find_photos E org ((nm, FileN st) # rest) (dirs, disorganized_photos) =
     (if lower (suffix (opath org @ [nm])) \<in> set (extentions org) then
        (case prompt_uncertain E (Photo E (opath org @ [nm]) st) of
           Inl e \<Rightarrow> Inl e
         | Inr photo \<Rightarrow>
             find_photos E org rest
               (dirs, setdefault_append (photo_month photo) photo disorganized_photos))
      else find_photos E org rest (dirs, disorganized_photos))"
| "find_photos E org ((nm, OtherN) # rest) (dirs, disorganized_photos) =
     find_photos E org rest (dirs, disorganized_photos)"

text \<open>Second loop, inner part: the photos inside an existing month directory.\<close>

fun find_organized_in ::
  "env \<Rightarrow> organizer \<Rightarrow> path \<Rightarrow> (string \<times> fsnode) list \<Rightarrow> photo list \<Rightarrow> error + photo list" where
  "find_organized_in E org d [] photos = Inr photos"
| "find_organized_in E org d ((nm, FileN st) # rest) photos =
     (if lower (suffix (d @ [nm])) \<in> set (extentions org) then
        (case prompt_uncertain E (Photo E (d @ [nm]) st) of
           Inl e \<Rightarrow> Inl e
         | Inr photo \<Rightarrow> find_organized_in E org d rest (photos @ [photo]))
      else find_organized_in E org d rest photos)"
| "find_organized_in E org d ((nm, nd) # rest) photos = find_organized_in E org d rest photos"

text \<open>Second loop: one pool of organized photos per month of a disorganized photo.\<close>

fun find_organized ::
  "env \<Rightarrow> organizer \<Rightarrow> fsnode \<Rightarrow> path list \<Rightarrow> month list \<Rightarrow>
   (month \<times> photo list) list \<times> command list \<Rightarrow>
   error + (month \<times> photo list) list \<times> command list" where
  "find_organized E org fs dirs [] (organized_photos, cmds) = Inr (organized_photos, cmds)"
| "find_organized E org fs dirs (m # months) (organized_photos, cmds) =
     (if opath org @ [strftime m] \<notin> set dirs then
        find_organized E org fs dirs months
          (organized_photos @ [(m, [])], cmds @ [MakeDirectory (opath org @ [strftime m])])
      else
        (case lookup fs (opath org @ [strftime m]) of
           Some (DirN ch) \<Rightarrow>
             (case find_organized_in E org (opath org @ [strftime m]) ch [] of
                Inl e \<Rightarrow> Inl e
              | Inr photos \<Rightarrow>
                  find_organized E org fs dirs months (organized_photos @ [(m, photos)], cmds))
         | Some nd \<Rightarrow> Inl NotADirectoryError
         | None \<Rightarrow> Inl FileNotFoundError))"

text \<open>
  Third loop, innermost part: one \<open>for other in ...: if photo.is_duplicate_of(other)\<close>
  loop, left by \<open>break\<close> at the first duplicate.  The flag \<open>photo_is_duplicate\<close> is
  passed through.
\<close>

fun check_pool ::
  "env \<Rightarrow> string \<Rightarrow> photo \<Rightarrow> photo list \<Rightarrow> bool \<times> prep \<Rightarrow> error + bool \<times> prep" where
  "check_pool E alg photo [] (photo_is_duplicate, st) = Inr (photo_is_duplicate, st)"
| "check_pool E alg photo (other # rest) (photo_is_duplicate, st) =
     (if duplicate E alg photo other then
        (case duplicate_found E other photo of
           KeepDup \<Rightarrow> Inr (True, st\<lparr>asked := asked st @ [(other, photo)]\<rparr>)
         | DeleteDup \<Rightarrow>
             Inr (True, st\<lparr>commands := commands st @ [Remove (path photo)],
                            asked := asked st @ [(other, photo)]\<rparr>)
         | AbortDup \<Rightarrow> Inl SystemExit)
      else check_pool E alg photo rest (photo_is_duplicate, st))"

text \<open>
  Third loop, the body for one photo: \<open>earlier\<close> is \<open>photos_for_month[:i]\<close>, the
  photos of the month that the enumeration has passed.  Both inner loops run, one
  after the other, and the photo joins the unique ones if neither raised the flag.
\<close>

definition check_photo ::
  "env \<Rightarrow> string \<Rightarrow> month \<Rightarrow> photo list \<Rightarrow> photo list \<Rightarrow> photo \<Rightarrow> prep \<Rightarrow> error + prep" where
  "check_photo E alg m organized earlier photo st =
     (case check_pool E alg photo organized (False, st) of
        Inl e \<Rightarrow> Inl e
      | Inr r1 \<Rightarrow>
          (case check_pool E alg photo earlier r1 of
             Inl e \<Rightarrow> Inl e
           | Inr (photo_is_duplicate, st2) \<Rightarrow>
               Inr (if \<not> photo_is_duplicate
                    then st2\<lparr>unique_photos := setdefault_append m photo (unique_photos st2)\<rparr>
                    else st2)))"

text \<open>Third loop, the enumeration of one month's photos.\<close>

fun check_photos ::
  "env \<Rightarrow> string \<Rightarrow> month \<Rightarrow> photo list \<Rightarrow> photo list \<Rightarrow> photo list \<Rightarrow> prep \<Rightarrow> error + prep" where
  "check_photos E alg m organized earlier [] st = Inr st"
| "check_photos E alg m organized earlier (photo # rest) st =
     (case check_photo E alg m organized earlier photo st of
        Inl e \<Rightarrow> Inl e
      | Inr st' \<Rightarrow> check_photos E alg m organized (earlier @ [photo]) rest st')"

text \<open>\<open>d[k]\<close> on a dictionary.\<close>

definition getitem :: "('k \<times> 'v) list \<Rightarrow> 'k \<Rightarrow> error + 'v" where
  "getitem d k = (case map_of d k of None \<Rightarrow> Inl KeyError | Some v \<Rightarrow> Inr v)"

fun check_months ::
  "env \<Rightarrow> string \<Rightarrow> (month \<times> photo list) list \<Rightarrow> (month \<times> photo list) list \<Rightarrow> prep \<Rightarrow>
   error + prep" where
  "check_months E alg organized_photos [] st = Inr st"
| "check_months E alg organized_photos ((m, photos_for_month) # rest) st =
     (case getitem organized_photos m of
        Inl e \<Rightarrow> Inl e
      | Inr organized \<Rightarrow>
          (case check_photos E alg m organized [] photos_for_month st of
             Inl e \<Rightarrow> Inl e
           | Inr st' \<Rightarrow> check_months E alg organized_photos rest st'))"

text \<open>
  \<open>list.sort()\<close> with \<open>__lt__\<close>: a stable sort, here by insertion from the right, each
  element going in front of the first one that is not smaller than it.
\<close>

fun insort_lt :: "photo \<Rightarrow> photo list \<Rightarrow> photo list" where
  "insort_lt x [] = [x]"
| "insort_lt x (y # ys) = (if lt y x then y # insort_lt x ys else x # y # ys)"

definition sort_photos :: "photo list \<Rightarrow> photo list" where
  "sort_photos photos = foldr insort_lt photos []"

text \<open>Fourth loop: every month's unique photos, extended by the organized ones, sorted.\<close>

fun merge_months ::
  "(month \<times> photo list) list \<Rightarrow> (month \<times> photo list) list \<Rightarrow>
   error + (month \<times> photo list) list" where
  "merge_months organized_photos [] = Inr []"
| "merge_months organized_photos ((m, photos) # rest) =
     (case getitem organized_photos m of
        Inl e \<Rightarrow> Inl e
      | Inr organized \<Rightarrow>
          (case merge_months organized_photos rest of
             Inl e \<Rightarrow> Inl e
           | Inr rest' \<Rightarrow> Inr ((m, sort_photos (photos @ organized)) # rest')))"

text \<open>
  Fifth loop.  \<open>next_number\<close> is the update of \<open>n\<close> and \<open>last_datetime_formatted\<close> for one
  photo, \<open>move_commands\<close> the loop over the photos of a month, \<open>move_months\<close> the loop
  over the months.
\<close>

definition next_number :: "nat \<times> string \<Rightarrow> string \<Rightarrow> nat \<times> string" where
  "next_number st photo_datetime_formatted =
     (case st of (n, last_datetime_formatted) \<Rightarrow>
        if last_datetime_formatted = photo_datetime_formatted
        then (n + 1, last_datetime_formatted)
        else (1, photo_datetime_formatted))"

definition destination :: "path \<Rightarrow> month \<Rightarrow> string \<Rightarrow> nat \<Rightarrow> photo \<Rightarrow> path" where
  "destination root m photo_datetime_formatted n photo =
     root @ [strftime m, photo_datetime_formatted @ '' '' @ zfill 3 n @ suffix (path photo)]"

fun move_commands ::
  "path \<Rightarrow> month \<Rightarrow> nat \<times> string \<Rightarrow> photo list \<Rightarrow> command list \<Rightarrow> command list" where
  "move_commands root m st [] cmds = cmds"
| "move_commands root m st (photo # rest) cmds =
     (let photo_datetime_formatted = isoformat (datetime photo);
          st' = next_number st photo_datetime_formatted;
          dest = destination root m photo_datetime_formatted (fst st') photo
      in move_commands root m st' rest
           (if dest = path photo then cmds else cmds @ [Move (path photo) dest]))"

fun move_months :: "path \<Rightarrow> (month \<times> photo list) list \<Rightarrow> command list \<Rightarrow> command list" where
  "move_months root [] cmds = cmds"
| "move_months root ((m, photos_for_month) # rest) cmds =
     move_months root rest
       (move_commands root m (1, isoformat datetime_min) photos_for_month cmds)"

text \<open>The sequence numbers alone, as the fifth loop assigns them to a month's list.\<close>

fun sequence_numbers :: "nat \<times> string \<Rightarrow> string list \<Rightarrow> nat list" where
  "sequence_numbers st [] = []"
| "sequence_numbers st (f # fs) = fst (next_number st f) # sequence_numbers (next_number st f) fs"

text \<open>\<open>Organizer.prepare\<close>, on an organizer whose command list is empty.\<close>

definition prepare :: "env \<Rightarrow> organizer \<Rightarrow> fsnode \<Rightarrow> error + prep" where
  "prepare E org fs =
     (case lookup fs (opath org) of
        None \<Rightarrow> Inl FileNotFoundError
      | Some (DirN ch) \<Rightarrow>
          (case find_photos E org ch ([], []) of
             Inl e \<Rightarrow> Inl e
           | Inr (dirs, disorganized_photos) \<Rightarrow>
               (case find_organized E org fs dirs (map fst disorganized_photos) ([], []) of
                  Inl e \<Rightarrow> Inl e
                | Inr (organized_photos, cmds) \<Rightarrow>
                    (case check_months E (hash_algorithm org) organized_photos disorganized_photos
                            \<lparr>unique_photos = [], commands = cmds, asked = []\<rparr> of
                       Inl e \<Rightarrow> Inl e
                     | Inr st \<Rightarrow>
                         (case merge_months organized_photos (unique_photos st) of
                            Inl e \<Rightarrow> Inl e
                          | Inr merged \<Rightarrow>
                              Inr (st\<lparr>unique_photos := merged,
                                      commands := move_months (opath org) merged (commands st)\<rparr>)))))
      | Some nd \<Rightarrow> Inl NotADirectoryError)"

section \<open>The run controller\<close>

text \<open>\<open>Organizer.simulate\<close>: the exception it raises, if any.\<close>

definition Organizer_simulate :: "organizer \<Rightarrow> command list \<Rightarrow> fsnode \<Rightarrow> error option" where
  "Organizer_simulate org cmds fs =
     (case create_simulacrum fs (opath org) of
        Inl e \<Rightarrow> Some e
      | Inr simulacrum \<Rightarrow> fst (simulate_commands cmds simulacrum))"

text \<open>\<open>Organizer.run\<close> after \<open>prepare\<close>, and \<open>Organizer.run\<close>.\<close>

definition run_commands ::
  "organizer \<Rightarrow> bool \<Rightarrow> command list \<Rightarrow> world \<Rightarrow> error option \<times> world" where
  "run_commands org simulate_only cmds w =
     (if length cmds = 0 then (None, w)
      else (case Organizer_simulate org cmds (files w) of
              Some e \<Rightarrow> (Some e, w)
            | None \<Rightarrow> if \<not> simulate_only then execute_commands cmds w else (None, w)))"

definition run :: "env \<Rightarrow> organizer \<Rightarrow> bool \<Rightarrow> world \<Rightarrow> error option \<times> world" where
  "run E org simulate_only w =
     (case prepare E org (files w) of
        Inl e \<Rightarrow> (Some e, w)
      | Inr st \<Rightarrow> run_commands org simulate_only (commands st) w)"

section \<open>Notions for the properties\<close>





text \<open>In a directory of a real filesystem no name occurs twice.\<close>

fun wf_node :: "fsnode \<Rightarrow> bool" where
  "wf_node (DirN ch) = (distinct (map fst ch) \<and> (\<forall>(nm, nd) \<in> set ch. wf_node nd))"
| "wf_node nd = True"


section \<open>Concrete inputs\<close>


text \<open>
  Collaborators for the examples: the files named \<open>a.jpg\<close>, \<open>b.jpg\<close> and
  \<open>2023-05-01 10:00:00 001.jpg\<close> hold the same three bytes, every other file the byte
  4; the digest writes the bytes as digits; the parsers know the timestamps listed;
  the user keeps every uncertain time and deletes every duplicate.
\<close>

definition env_ex :: env where
  "env_ex =
     \<lparr>file_bytes =
        (\<lambda>p. if name p \<in> set [''a.jpg'', ''b.jpg'', ''2023-05-01 10:00:00 001.jpg'']
             then [1, 2, 3] else [4]),
      hexdigest = (\<lambda>alg d. map (\<lambda>n. digit (n mod 10)) d),
      fromisoformat = map_of [(''2023-05-01 10:00:00'', DateTime 2023 5 1 10 0 0 0)],
      strptime =
        map_of [(''2023:05:01 10:00:00'', DateTime 2023 5 1 10 0 0 0),
                (''2023:05:01 11:00:00'', DateTime 2023 5 1 11 0 0 0),
                (''0001:01:01 00:00:00'', DateTime 1 1 1 0 0 0 0)],
      datetime_uncertain = (\<lambda>p. KeepTime),
      duplicate_found = (\<lambda>original duplicate. DeleteDup)\<rparr>"

definition stat_ex :: finfo where
  "stat_ex =
     \<lparr>st_size = 3, st_mtime = DateTime 2020 1 1 0 0 0 0,
      image = Identified [(''DateTimeOriginal'', ''2023:05:01 10:00:00'')]\<rparr>"


text \<open>
  An organizer on the directory \<open>/t\<close> with the default extensions; a file whose
  metadata holds the given original capture time; and what a plan shows: its commands
  and the paths of the pairs (original, duplicate) that were asked.
\<close>

definition org_ex :: organizer where
  "org_ex =
     \<lparr>opath = [''t''], hash_algorithm = ''sha256'',
      extentions = [''.jpg'', ''.jpeg'', ''.png'', ''.gif'']\<rparr>"

definition taken :: "string \<Rightarrow> fsnode" where
  "taken s = FileN (stat_ex\<lparr>image := Identified [(''DateTimeOriginal'', s)]\<rparr>)"


text \<open>
  Five target directories: two identical new photos, \<open>b.jpg\<close> listed first; two
  identical new photos that are also copies of an organized one; an organized
  directory with no new photo; one new photo taken at \<open>datetime.min\<close>; and a new
  photo taken at the time that the name of an organized photo claims, while that
  one's metadata says an hour later.
\<close>

definition fs_listing :: fsnode where
  "fs_listing =
     DirN [(''t'', DirN [(''b.jpg'', taken ''2023:05:01 10:00:00''),
                         (''a.jpg'', taken ''2023:05:01 10:00:00'')])]"


definition fs_organized :: fsnode where
  "fs_organized =
     DirN [(''t'', DirN [(''2023-05'',
                           DirN [(''2023-05-01 10:00:00 001.jpg'', taken ''2023:05:01 10:00:00'')]),
                         (''notes.txt'', FileN stat_ex)])]"


definition fs_conflict :: fsnode where
  "fs_conflict =
     DirN [(''t'', DirN [(''2023-05'',
                           DirN [(''2023-05-01 10:00:00 001.jpg'', taken ''2023:05:01 11:00:00'')]),
                         (''x.jpg'', taken ''2023:05:01 10:00:00'')])]"

section \<open>Simulation of a single command\<close>

lemma simulate_distinct: "distinct sim \<Longrightarrow> distinct (snd (simulate cmd sim))"
  by (cases cmd) (auto split: if_splits)

lemma simulate_commands_distinct:
  "distinct sim \<Longrightarrow> distinct (snd (simulate_commands cmds sim))"
proof (induction cmds arbitrary: sim)
  case Nil
  then show ?case by simp
next
  case (Cons cmd cmds)
  from Cons.prems have d: "distinct (snd (simulate cmd sim))"
    by (rule simulate_distinct)
  show ?case
  proof (cases "simulate cmd sim")
    case (Pair r sim')
    with d Cons.IH[of sim'] show ?thesis
      by (cases r) auto
  qed
qed

lemma length_split: "length (split c s) = Suc (count_list s c)"
  by (induction s) (auto split: list.splits)

text \<open>
  A name has no suffix in the sense of \<open>suffixes\<close> exactly when it ends in a dot or
  has no dot after its leading dots.
\<close>

lemma suffixes_empty_iff:
  "suffixes p = [] \<longleftrightarrow> endswith (name p) ''.'' \<or> CHR ''.'' \<notin> set (lstrip CHR ''.'' (name p))"
proof -
  have "tl (split c s) = [] \<longleftrightarrow> c \<notin> set s" for c s
  proof -
    have "tl (split c s) = [] \<longleftrightarrow> length (split c s) \<le> 1"
      by (cases "split c s") auto
    also have "\<dots> \<longleftrightarrow> count_list s c = 0" by (simp add: length_split)
    also have "\<dots> \<longleftrightarrow> c \<notin> set s" by (simp add: count_list_0_iff)
    finally show ?thesis .
  qed
  then show ?thesis by (simp add: suffixes_def)
qed

text \<open>
  Claim C10.  When the simulation of a command raises, whichever of the three commands
  it is and whichever check fails, the simulacrum is what it was before the call.
\<close>

theorem simulate_atomic_on_error:
  "fst (simulate cmd sim) = Some e \<Longrightarrow> snd (simulate cmd sim) = sim"
  by (cases cmd) (auto split: if_splits)

theorem simulate_atomic_on_error_witness:
  "fst (simulate (Move [''t'', ''a.jpg''] [''t'', ''b.jpg'']) [[''t'', ''a.jpg''], [''t'', ''b.jpg'']])
     = Some FileExistsError
   \<and> snd (simulate (Move [''t'', ''a.jpg''] [''t'', ''b.jpg'']) [[''t'', ''a.jpg''], [''t'', ''b.jpg'']])
     = [[''t'', ''a.jpg''], [''t'', ''b.jpg'']]"
  using simulate_atomic_on_error
    [of "Move [''t'', ''a.jpg''] [''t'', ''b.jpg'']" "[[''t'', ''a.jpg''], [''t'', ''b.jpg'']]"
        FileExistsError]
  by simp

text \<open>
  Claim C4.  On a simulacrum without repetitions, which is what the listing of a
  directory tree is and what simulation keeps it (lemmas \<open>create_simulacrum_distinct\<close>,
  \<open>simulate_distinct\<close>): creating a directory fails exactly when the path is present and
  otherwise adds it; moving fails exactly when the source is absent or the destination
  present and otherwise removes the source and adds the destination; deleting fails
  exactly when the target is absent or its name has no suffix, and otherwise removes it.
\<close>

theorem simulate_semantics:
  assumes "distinct sim"
  shows "((fst (simulate (MakeDirectory d) sim) \<noteq> None) = (d \<in> set sim))
       \<and> (d \<notin> set sim \<longrightarrow> set (snd (simulate (MakeDirectory d) sim)) = insert d (set sim))
       \<and> ((fst (simulate (Move s t) sim) \<noteq> None) = (s \<notin> set sim \<or> t \<in> set sim))
       \<and> (s \<in> set sim \<and> t \<notin> set sim \<longrightarrow>
            set (snd (simulate (Move s t) sim)) = insert t (set sim - {s}))
       \<and> ((fst (simulate (Remove x) sim) \<noteq> None) = (x \<notin> set sim \<or> suffixes x = []))
       \<and> (x \<in> set sim \<and> suffixes x \<noteq> [] \<longrightarrow>
            set (snd (simulate (Remove x) sim)) = set sim - {x})"
  using assms by auto

theorem simulate_semantics_witness:
  "distinct [[''t'', ''a.jpg'']]
   \<and> fst (simulate (MakeDirectory [''t'', ''2023-05'']) [[''t'', ''a.jpg'']]) = None
   \<and> set (snd (simulate (MakeDirectory [''t'', ''2023-05'']) [[''t'', ''a.jpg'']]))
       = {[''t'', ''2023-05''], [''t'', ''a.jpg'']}
   \<and> fst (simulate (Move [''t'', ''a.jpg''] [''t'', ''b.jpg'']) [[''t'', ''a.jpg'']]) = None
   \<and> set (snd (simulate (Move [''t'', ''a.jpg''] [''t'', ''b.jpg'']) [[''t'', ''a.jpg'']]))
       = {[''t'', ''b.jpg'']}
   \<and> suffixes [''t'', ''a.jpg''] \<noteq> []
   \<and> fst (simulate (Remove [''t'', ''a.jpg'']) [[''t'', ''a.jpg'']]) = None
   \<and> set (snd (simulate (Remove [''t'', ''a.jpg'']) [[''t'', ''a.jpg'']])) = {}"
proof -
  have d: "distinct [[''t'', ''a.jpg'']]" by simp
  have s: "suffixes [''t'', ''a.jpg''] \<noteq> []"
    by (simp add: suffixes_def name_def endswith_def lstrip_def)
  show ?thesis
    using s simulate_semantics [OF d, of "[''t'', ''2023-05'']" "[''t'', ''a.jpg'']"
        "[''t'', ''b.jpg'']" "[''t'', ''a.jpg'']"]
    by auto
qed

section \<open>The ordering of photo records\<close>












section \<open>The simulacrum of a directory tree\<close>

lemma create_simulacrum_node_below:
  "q \<in> set (create_simulacrum_node p nd) \<Longrightarrow> \<exists>r. r \<noteq> [] \<and> q = p @ r"
proof (induction p nd arbitrary: q rule: create_simulacrum_node.induct)
  case (1 p ch)
  from "1.prems" obtain nm sub where
    m: "(nm, sub) \<in> set ch" and
    q: "q = p @ [nm] \<or> (is_dir_node sub \<and> q \<in> set (create_simulacrum_node (p @ [nm]) sub))"
    by (auto split: if_splits)
  from q show ?case
  proof
    assume "q = p @ [nm]"
    then show ?thesis by blast
  next
    assume a: "is_dir_node sub \<and> q \<in> set (create_simulacrum_node (p @ [nm]) sub)"
    with "1.IH"[OF m refl, of q] obtain r where "q = (p @ [nm]) @ r" by blast
    then have "q = p @ (nm # r)" by simp
    then show ?thesis by blast
  qed
qed simp_all

lemma create_simulacrum_node_child:
  assumes "q \<in> set ((p @ [nm]) # (if is_dir_node sub then create_simulacrum_node (p @ [nm]) sub else []))"
  shows "\<exists>r. q = p @ nm # r"
proof (cases "q = p @ [nm]")
  case True
  then show ?thesis by blast
next
  case False
  with assms have "q \<in> set (create_simulacrum_node (p @ [nm]) sub)"
    by (auto split: if_splits)
  from create_simulacrum_node_below[OF this] obtain r where "q = (p @ [nm]) @ r" by blast
  then have "q = p @ nm # r" by simp
  then show ?thesis by blast
qed

lemma distinct_listing:
  assumes "distinct (map fst ch)"
    and "\<And>nm sub. (nm, sub) \<in> set ch \<Longrightarrow> distinct (g nm sub)"
    and "\<And>nm sub q. (nm, sub) \<in> set ch \<Longrightarrow> q \<in> set (g nm sub) \<Longrightarrow> \<exists>r. q = p @ nm # r"
  shows "distinct (concat (map (\<lambda>(nm, sub). g nm sub) ch))"
  using assms
proof (induction ch)
  case Nil
  then show ?case by simp
next
  case (Cons c ch)
  obtain nm sub where c: "c = (nm, sub)" by (cases c)
  have d: "distinct (concat (map (\<lambda>(nm, sub). g nm sub) ch))"
  proof (rule Cons.IH)
    from Cons.prems(1) show "distinct (map fst ch)" by simp
  next
    fix nm sub
    assume "(nm, sub) \<in> set ch"
    then show "distinct (g nm sub)" using Cons.prems(2)[of nm sub] by simp
  next
    fix nm sub q
    assume "(nm, sub) \<in> set ch" "q \<in> set (g nm sub)"
    then show "\<exists>r. q = p @ nm # r" using Cons.prems(3)[of nm sub q] by simp
  qed
  have h: "distinct (g nm sub)" using Cons.prems(2)[of nm sub] c by simp
  have x: "set (g nm sub) \<inter> set (concat (map (\<lambda>(nm, sub). g nm sub) ch)) = {}"
  proof (rule ccontr)
    assume "\<not> ?thesis"
    then obtain q nm' sub' where q: "q \<in> set (g nm sub)" and m: "(nm', sub') \<in> set ch"
      and q': "q \<in> set (g nm' sub')"
      by auto
    from Cons.prems(3)[of nm sub q] c q obtain r where r: "q = p @ nm # r" by auto
    from Cons.prems(3)[of nm' sub' q] m q' obtain r' where r': "q = p @ nm' # r'" by auto
    from r r' have "nm = nm'" by simp
    with m have "nm \<in> fst ` set ch" by force
    with Cons.prems(1) c show False by simp
  qed
  from d h x c show ?case by simp
qed

text \<open>The listing of a well-formed tree names every path once.\<close>

lemma create_simulacrum_node_distinct:
  "wf_node nd \<Longrightarrow> distinct (create_simulacrum_node p nd)"
proof (induction p nd rule: create_simulacrum_node.induct)
  case (1 p ch)
  let ?g = "\<lambda>nm sub. (p @ [nm]) # (if is_dir_node sub then create_simulacrum_node (p @ [nm]) sub else [])"
  have "distinct (concat (map (\<lambda>(nm, sub). ?g nm sub) ch))"
  proof (rule distinct_listing[where p = p])
    from "1.prems" show "distinct (map fst ch)" by simp
  next
    fix nm sub
    assume m: "(nm, sub) \<in> set ch"
    with "1.prems" have w: "wf_node sub" by auto
    have "p @ [nm] \<notin> set (create_simulacrum_node (p @ [nm]) sub)"
      using create_simulacrum_node_below[of "p @ [nm]" "p @ [nm]" sub] by auto
    with "1.IH"[OF m refl _ w] show "distinct (?g nm sub)" by simp
  next
    fix nm sub q
    assume "(nm, sub) \<in> set ch" and "q \<in> set (?g nm sub)"
    then show "\<exists>r. q = p @ nm # r" using create_simulacrum_node_child[of q p nm sub] by blast
  qed
  then show ?case by simp
qed simp_all

lemma create_simulacrum_distinct:
  assumes "lookup fs p = Some nd" and "wf_node nd" and "create_simulacrum fs p = Inr sim"
  shows "distinct sim"
  using assms create_simulacrum_node_distinct[of nd p]
  by (auto simp: create_simulacrum_def split: if_splits)


section \<open>Digests and duplicates\<close>




lemma get_hash_digest: "fst (get_hash E alg r h) = digest E alg h r"
  by (auto simp: get_hash_def digest_def Let_def split: option.splits)

lemma digest_after_get_hash:
  "digest E alg (snd (get_hash E alg' r' h)) r = digest E alg h r"
  by (auto simp: get_hash_def digest_def Let_def map_add_def split: option.splits if_splits)







text \<open>
  On stores whose caches hold digests of the files, \<open>is_duplicate_of\<close> is the
  duplicate test of the planner, and it leaves the caches of that kind.
\<close>

lemma digest_cache_ok:
  "cache_ok E (objs h r) \<Longrightarrow>
   digest E alg h r = hexdigest E alg (file_bytes E (path (objs h r)))"
  by (auto simp: cache_ok_def digest_def list_all_iff split: option.splits dest!: map_of_SomeD)

lemma is_duplicate_of_duplicate:
  assumes "cache_ok E (objs h a)" and "cache_ok E (objs h b)"
  shows "fst (is_duplicate_of E alg a b h) = duplicate E alg (objs h a) (objs h b)"
proof -
  have "fst (is_duplicate_of E alg a b h) =
        (psize (objs h a) = psize (objs h b) \<and> digest E alg h a = digest E alg h b)"
    using get_hash_digest[of E alg a h] get_hash_digest[of E alg b "snd (get_hash E alg a h)"]
      digest_after_get_hash[of E alg alg a h b]
    by (auto simp: is_duplicate_of_def Let_def split: prod.splits)
  with assms show ?thesis
    by (simp add: digest_cache_ok duplicate_def)
qed

lemma get_hash_cache_ok:
  "cache_ok E (objs h r) \<Longrightarrow> cache_ok E (objs (snd (get_hash E alg s h)) r)"
  by (auto simp: get_hash_def Let_def cache_ok_def split: option.splits)

lemma is_duplicate_of_cache_ok:
  "cache_ok E (objs h r) \<Longrightarrow> cache_ok E (objs (snd (is_duplicate_of E alg a b h)) r)"
  by (simp add: is_duplicate_of_def Let_def case_prod_unfold get_hash_cache_ok)

lemma do_calls_cache_ok:
  "cache_ok E (objs h r) \<Longrightarrow> cache_ok E (objs (do_calls E cs h) r)"
proof (induction cs arbitrary: h)
  case Nil
  then show ?case by simp
next
  case (Cons c cs)
  have "cache_ok E (objs (do_call E c h) r)"
    using Cons.prems by (cases c) (simp_all add: get_hash_cache_ok is_duplicate_of_cache_ok)
  then show ?case using Cons.IH by simp
qed

text \<open>
  The records of the planner start with an empty cache, and the answer about an
  uncertain time changes neither the cache nor the path.
\<close>

lemma Photo_cache_ok: "cache_ok E (Photo E' p st)"
  by (simp add: Photo_def cache_ok_def Let_def split: option.splits image.splits)

lemma prompt_uncertain_cache_ok:
  "prompt_uncertain E' photo = Inr photo' \<Longrightarrow> cache_ok E photo \<Longrightarrow> cache_ok E photo'"
  by (auto simp: prompt_uncertain_def cache_ok_def split: if_splits time_answer.splits)





section \<open>Capture-time resolution\<close>





section \<open>Sequence numbers and move commands\<close>

text \<open>
  The fifth loop appends, for each photo whose destination is not its path, one move
  to the destination that carries the photo's sequence number.
\<close>

lemma move_commands_eq:
  "move_commands root m st photos cmds =
     cmds @ map (\<lambda>(photo, n). Move (path photo)
                   (destination root m (isoformat (datetime photo)) n photo))
              (filter (\<lambda>(photo, n).
                   destination root m (isoformat (datetime photo)) n photo \<noteq> path photo)
                 (zip photos (sequence_numbers st (map (\<lambda>p. isoformat (datetime p)) photos))))"
  by (induction photos arbitrary: st cmds) (simp_all add: Let_def)

text \<open>
  After the first record the numbering is as the claim has it: the number is one more
  than the preceding record's when the two formatted timestamps are equal, and 1
  otherwise.  The first record is numbered against the formatted \<open>datetime.min\<close>.
\<close>

lemma length_sequence_numbers: "length (sequence_numbers st fs) = length fs"
  by (induction fs arbitrary: st) simp_all

lemma sequence_numbers_first:
  "sequence_numbers (n, l) (f # fs) ! 0 = (if l = f then n + 1 else 1)"
  by (simp add: next_number_def)

lemma sequence_numbers_state:
  "snd (next_number st f) = f"
  by (cases st) (simp add: next_number_def)

lemma sequence_numbers_next:
  "Suc i < length fs \<Longrightarrow>
   sequence_numbers st fs ! Suc i =
     (if fs ! Suc i = fs ! i then sequence_numbers st fs ! i + 1 else 1)"
proof (induction fs arbitrary: st i)
  case Nil
  then show ?case by simp
next
  case (Cons f fs)
  show ?case
  proof (cases i)
    case 0
    with Cons.prems obtain g gs where fs: "fs = g # gs" by (cases fs) auto
    obtain n l where st': "next_number st f = (n, l)" by (cases "next_number st f")
    with sequence_numbers_state[of st f] have "l = f" by simp
    with 0 fs st' show ?thesis by (simp add: next_number_def)
  next
    case (Suc j)
    with Cons.prems have "Suc j < length fs" by simp
    from Cons.IH[OF this, of "next_number st f"] Suc show ?thesis by simp
  qed
qed

text \<open>
  Hence the numbers are those of the claim whenever the first formatted timestamp is
  not the one of \<open>datetime.min\<close>.
\<close>

lemma sequence_numbers_TTTU:
  assumes "T \<noteq> U" and "T \<noteq> isoformat datetime_min"
  shows "sequence_numbers (1, isoformat datetime_min) [T, T, T, U] = [1, 2, 3, 1]"
  using assms by (auto simp: next_number_def)



section \<open>What the planner emits\<close>

text \<open>Without photos among the children of the target, the first loop finds none.\<close>

lemma find_photos_no_photo:
  assumes "\<forall>(nm, nd) \<in> set ch. \<forall>st. nd = FileN st \<longrightarrow>
             lower (suffix (opath org @ [nm])) \<notin> set (extentions org)"
  shows "\<exists>dirs'. find_photos E org ch (dirs, dis) = Inr (dirs', dis)"
  using assms
proof (induction ch arbitrary: dirs)
  case Nil
  then show ?case by simp
next
  case (Cons c ch)
  obtain nm nd where c: "c = (nm, nd)" by (cases c)
  from Cons.prems have rest: "\<forall>(nm, nd) \<in> set ch. \<forall>st. nd = FileN st \<longrightarrow>
             lower (suffix (opath org @ [nm])) \<notin> set (extentions org)"
    by simp
  show ?case
  proof (cases nd)
    case (FileN st)
    with Cons.prems c have "lower (suffix (opath org @ [nm])) \<notin> set (extentions org)"
      by simp
    with c FileN Cons.IH[OF rest, of dirs] show ?thesis by simp
  next
    case (DirN sub)
    with c Cons.IH[OF rest, of "dirs @ [opath org @ [nm]]"] show ?thesis by simp
  next
    case OtherN
    with c Cons.IH[OF rest, of dirs] show ?thesis by simp
  qed
qed

text \<open>The second and the third loop emit no move.\<close>

lemma find_organized_moves:
  "find_organized E org fs dirs months (pool, cmds) = Inr (pool', cmds') \<Longrightarrow>
   Move s d \<in> set cmds' \<Longrightarrow> Move s d \<in> set cmds"
proof (induction months arbitrary: pool cmds)
  case Nil
  then show ?case by simp
next
  case (Cons m months)
  show ?case
  proof (cases "opath org @ [strftime m] \<notin> set dirs")
    case True
    with Cons.prems(1) have
      "find_organized E org fs dirs months
         (pool @ [(m, [])], cmds @ [MakeDirectory (opath org @ [strftime m])]) = Inr (pool', cmds')"
      by simp
    from Cons.IH[OF this Cons.prems(2)] show ?thesis by simp
  next
    case False
    with Cons.prems(1) obtain photos where
      "find_organized E org fs dirs months (pool @ [(m, photos)], cmds) = Inr (pool', cmds')"
      by (auto split: option.splits fsnode.splits sum.splits)
    from Cons.IH[OF this Cons.prems(2)] show ?thesis .
  qed
qed

lemma check_pool_moves:
  "check_pool E alg photo pool (flag, st) = Inr (flag', st') \<Longrightarrow>
   Move s d \<in> set (commands st') \<Longrightarrow> Move s d \<in> set (commands st)"
  by (induction pool) (auto split: if_splits dup_answer.splits)

lemma check_photo_moves:
  assumes "check_photo E alg m organized earlier photo st = Inr st'"
    and "Move s d \<in> set (commands st')"
  shows "Move s d \<in> set (commands st)"
proof -
  from assms(1) obtain f1 st1 f2 st2 where
    1: "check_pool E alg photo organized (False, st) = Inr (f1, st1)" and
    2: "check_pool E alg photo earlier (f1, st1) = Inr (f2, st2)" and
    3: "commands st' = commands st2"
    by (auto simp: check_photo_def split: sum.splits prod.splits if_splits)
  from assms(2) 3 have "Move s d \<in> set (commands st2)" by simp
  from check_pool_moves[OF 2 this] check_pool_moves[OF 1] show ?thesis by blast
qed

lemma check_photos_moves:
  "check_photos E alg m organized earlier photos st = Inr st' \<Longrightarrow>
   Move s d \<in> set (commands st') \<Longrightarrow> Move s d \<in> set (commands st)"
proof (induction photos arbitrary: earlier st)
  case Nil
  then show ?case by simp
next
  case (Cons photo photos)
  from Cons.prems(1) obtain st1 where
    1: "check_photo E alg m organized earlier photo st = Inr st1" and
    2: "check_photos E alg m organized (earlier @ [photo]) photos st1 = Inr st'"
    by (auto split: sum.splits)
  from Cons.IH[OF 2 Cons.prems(2)] check_photo_moves[OF 1] show ?case by blast
qed

lemma check_months_moves:
  "check_months E alg pool dis st = Inr st' \<Longrightarrow>
   Move s d \<in> set (commands st') \<Longrightarrow> Move s d \<in> set (commands st)"
proof (induction dis arbitrary: st)
  case Nil
  then show ?case by simp
next
  case (Cons md dis)
  obtain m photos where md: "md = (m, photos)" by (cases md)
  from Cons.prems(1) md obtain organized st1 where
    1: "check_photos E alg m organized [] photos st = Inr st1" and
    2: "check_months E alg pool dis st1 = Inr st'"
    by (auto split: sum.splits)
  from Cons.IH[OF 2 Cons.prems(2)] check_photos_moves[OF 1] show ?case by blast
qed

text \<open>The fifth loop emits only moves whose destination is not the source.\<close>

lemma move_commands_moves:
  "Move s d \<in> set (move_commands root m st photos cmds) \<Longrightarrow> Move s d \<in> set cmds \<or> s \<noteq> d"
  by (auto simp: move_commands_eq)

lemma move_months_moves:
  "Move s d \<in> set (move_months root merged cmds) \<Longrightarrow> Move s d \<in> set cmds \<or> s \<noteq> d"
proof (induction merged arbitrary: cmds)
  case Nil
  then show ?case by simp
next
  case (Cons mp merged)
  obtain m photos where "mp = (m, photos)" by (cases mp)
  with Cons.prems Cons.IH[of "move_commands root m (1, isoformat datetime_min) photos cmds"]
    move_commands_moves[of s d root m "(1, isoformat datetime_min)" photos cmds]
  show ?case by auto
qed

text \<open>
  Claim C9.  When no child of the target directory is a photo (a file with one of the
  extensions), whatever the month directories hold, the planner returns with no
  command and without having asked anything; and no plan contains a move whose
  destination is its source.
\<close>

theorem prepare_idempotent:
  "(lookup fs (opath org) = Some (DirN ch)
      \<and> (\<forall>(nm, nd) \<in> set ch. \<forall>st. nd = FileN st \<longrightarrow>
            lower (suffix (opath org @ [nm])) \<notin> set (extentions org))
      \<longrightarrow> prepare E org fs = Inr \<lparr>unique_photos = [], commands = [], asked = []\<rparr>)
   \<and> (prepare E org fs = Inr st' \<longrightarrow> (\<forall>s d. Move s d \<in> set (commands st') \<longrightarrow> s \<noteq> d))"
proof (intro conjI impI allI)
  assume a: "lookup fs (opath org) = Some (DirN ch)
      \<and> (\<forall>(nm, nd) \<in> set ch. \<forall>st. nd = FileN st \<longrightarrow>
            lower (suffix (opath org @ [nm])) \<notin> set (extentions org))"
  then obtain dirs where "find_photos E org ch ([], []) = Inr (dirs, [])"
    using find_photos_no_photo[of ch org E "[]" "[]"] by blast
  with a show "prepare E org fs = Inr \<lparr>unique_photos = [], commands = [], asked = []\<rparr>"
    by (simp add: prepare_def)
next
  fix s d
  assume p: "prepare E org fs = Inr st'" and mv: "Move s d \<in> set (commands st')"
  from p obtain ch dirs dis pool cmds st merged where
    2: "find_organized E org fs dirs (map fst dis) ([], []) = Inr (pool, cmds)" and
    3: "check_months E (hash_algorithm org) pool dis
          \<lparr>unique_photos = [], commands = cmds, asked = []\<rparr> = Inr st" and
    5: "commands st' = move_months (opath org) merged (commands st)"
    by (auto simp: prepare_def split: option.splits fsnode.splits sum.splits prod.splits)
  show "s \<noteq> d"
  proof
    assume "s = d"
    with mv 5 move_months_moves[of s d "opath org" merged "commands st"]
    have "Move s d \<in> set (commands st)" by auto
    from check_months_moves[OF 3 this] have "Move s d \<in> set cmds" by simp
    from find_organized_moves[OF 2 this] show False by simp
  qed
qed


theorem prepare_idempotent_witness:
  "prepare env_ex org_ex fs_organized = Inr \<lparr>unique_photos = [], commands = [], asked = []\<rparr>
   \<and> map_sum id commands (prepare env_ex org_ex fs_listing) =
       Inr [MakeDirectory [''t'', ''2023-05''], Remove [''t'', ''a.jpg''],
            Move [''t'', ''b.jpg''] [''t'', ''2023-05'', ''2023-05-01 10:00:00 001.jpg'']]
   \<and> [''t'', ''b.jpg''] \<noteq> [''t'', ''2023-05'', ''2023-05-01 10:00:00 001.jpg'']"
proof -
  let ?ch = "[(''2023-05'',
                DirN [(''2023-05-01 10:00:00 001.jpg'', taken ''2023:05:01 10:00:00'')]),
              (''notes.txt'', FileN stat_ex)]"
  have l: "lookup fs_organized (opath org_ex) = Some (DirN ?ch)"
    by (simp add: fs_organized_def org_ex_def)
  have s: "lower (suffix (opath org_ex @ [''notes.txt''])) = ''.txt''"
    by code_simp
  have n: "\<forall>(nm, nd) \<in> set ?ch. \<forall>st. nd = FileN st \<longrightarrow>
             lower (suffix (opath org_ex @ [nm])) \<notin> set (extentions org_ex)"
    using s by (simp add: org_ex_def)
  have p: "map_sum id commands (prepare env_ex org_ex fs_listing) =
       Inr [MakeDirectory [''t'', ''2023-05''], Remove [''t'', ''a.jpg''],
            Move [''t'', ''b.jpg''] [''t'', ''2023-05'', ''2023-05-01 10:00:00 001.jpg'']]"
    by code_simp
  then obtain st where st: "prepare env_ex org_ex fs_listing = Inr st"
    "commands st = [MakeDirectory [''t'', ''2023-05''], Remove [''t'', ''a.jpg''],
            Move [''t'', ''b.jpg''] [''t'', ''2023-05'', ''2023-05-01 10:00:00 001.jpg'']]"
    by (cases "prepare env_ex org_ex fs_listing") auto
  from l n prepare_idempotent [of fs_organized org_ex ?ch env_ex]
  have 1: "prepare env_ex org_ex fs_organized = Inr \<lparr>unique_photos = [], commands = [], asked = []\<rparr>"
    by blast
  from st prepare_idempotent [of fs_listing org_ex ?ch env_ex st]
  have 2: "[''t'', ''b.jpg''] \<noteq> [''t'', ''2023-05'', ''2023-05-01 10:00:00 001.jpg'']"
    by simp
  from 1 p 2 show ?thesis by blast
qed


section \<open>Duplicate detection in the planner\<close>












section \<open>The run controller\<close>

lemma simulate_commands_append:
  "simulate_commands (pre @ post) sim =
     (case simulate_commands pre sim of
        (Some e, sim') \<Rightarrow> (Some e, sim')
      | (None, sim') \<Rightarrow> simulate_commands post sim')"
  by (induction pre arbitrary: sim) (auto split: prod.splits option.splits)

text \<open>
  The simulation raises at the first command whose own simulation raises in the
  simulacrum that the commands before it have left.
\<close>

lemma simulate_commands_raises:
  assumes "simulate_commands pre sim = (None, sim')" and "fst (simulate cmd sim') = Some e"
  shows "fst (simulate_commands (pre @ cmd # post) sim) = Some e"
  using assms by (auto simp: simulate_commands_append split: prod.splits option.splits)

lemma simulate_move_present: "d \<in> set sim \<Longrightarrow> fst (simulate (Move s d) sim) \<noteq> None"
  by simp

text \<open>
  Claim C1.  With a plan that is not empty, an error in the simulation ends the run
  with that error and leaves the world as it was: the filesystem is untouched and no
  command has been executed.  The simulation fails in this way as soon as the
  simulation of one command raises, in particular at a move whose destination is in
  the simulated state.  Conversely, a run that has executed a command has simulated
  its whole plan without error.
\<close>

theorem run_simulates_first:
  "(cmds \<noteq> [] \<and> Organizer_simulate org cmds (files w) = Some e
      \<longrightarrow> run_commands org simulate_only cmds w = (Some e, w))
   \<and> (prepare E org (files w) = Inr st \<and> commands st \<noteq> []
        \<and> Organizer_simulate org (commands st) (files w) = Some e
      \<longrightarrow> run E org simulate_only w = (Some e, w))
   \<and> (prepare E org (files w) = Inr st \<and> create_simulacrum (files w) (opath org) = Inr sim
        \<and> commands st = pre @ cmd # post \<and> simulate_commands pre sim = (None, sim')
        \<and> fst (simulate cmd sim') = Some e
      \<longrightarrow> run E org simulate_only w = (Some e, w))
   \<and> (prepare E org (files w) = Inr st \<and> create_simulacrum (files w) (opath org) = Inr sim
        \<and> commands st = pre @ Move s d # post \<and> simulate_commands pre sim = (None, sim')
        \<and> d \<in> set sim'
      \<longrightarrow> (\<exists>e'. run E org simulate_only w = (Some e', w)))
   \<and> (executed (snd (run E org simulate_only w)) \<noteq> executed w
      \<longrightarrow> (\<exists>st'. prepare E org (files w) = Inr st' \<and> commands st' \<noteq> []
             \<and> Organizer_simulate org (commands st') (files w) = None \<and> \<not> simulate_only))"
proof -
  have 1: "run_commands org simulate_only cmds w = (Some e, w)"
    if "cmds \<noteq> []" "Organizer_simulate org cmds (files w) = Some e" for cmds e
    using that by (simp add: run_commands_def)
  have 2: "run E org simulate_only w = (Some e, w)"
    if "prepare E org (files w) = Inr st" "commands st \<noteq> []"
      "Organizer_simulate org (commands st) (files w) = Some e" for e
    using that 1 by (simp add: run_def)
  have 3: "run E org simulate_only w = (Some e, w)"
    if p: "prepare E org (files w) = Inr st"
      and c: "create_simulacrum (files w) (opath org) = Inr sim"
      and d: "commands st = pre @ cmd # post"
      and s: "simulate_commands pre sim = (None, sim')" "fst (simulate cmd sim') = Some e"
    for cmd e
  proof -
    from c d simulate_commands_raises[OF s, of post]
    have "Organizer_simulate org (commands st) (files w) = Some e"
      by (simp add: Organizer_simulate_def)
    with p d show ?thesis by (intro 2) simp_all
  qed
  have 4: "\<exists>e'. run E org simulate_only w = (Some e', w)"
    if "prepare E org (files w) = Inr st" "create_simulacrum (files w) (opath org) = Inr sim"
      "commands st = pre @ Move s d # post" "simulate_commands pre sim = (None, sim')"
      "d \<in> set sim'"
  proof -
    from simulate_move_present[OF that(5), of s] obtain e'
      where "fst (simulate (Move s d) sim') = Some e'" by auto
    from 3[OF that(1-4) this] show ?thesis by blast
  qed
  have 5: "\<exists>st'. prepare E org (files w) = Inr st' \<and> commands st' \<noteq> []
             \<and> Organizer_simulate org (commands st') (files w) = None \<and> \<not> simulate_only"
    if "executed (snd (run E org simulate_only w)) \<noteq> executed w"
    using that
    by (auto simp: run_def run_commands_def split: sum.splits option.splits if_splits)
  from 1 2 3 4 5 show ?thesis by blast
qed

theorem run_simulates_first_witness:
  "map_sum id commands (prepare env_ex org_ex fs_conflict) =
     Inr ([] @ Move [''t'', ''x.jpg''] [''t'', ''2023-05'', ''2023-05-01 10:00:00 001.jpg'']
             # [Move [''t'', ''2023-05'', ''2023-05-01 10:00:00 001.jpg'']
                     [''t'', ''2023-05'', ''2023-05-01 11:00:00 001.jpg'']])
   \<and> create_simulacrum fs_conflict [''t''] =
       Inr [[''t'', ''2023-05''], [''t'', ''2023-05'', ''2023-05-01 10:00:00 001.jpg''],
            [''t'', ''x.jpg'']]
   \<and> run env_ex org_ex False \<lparr>files = fs_conflict, executed = []\<rparr>
       = (Some FileExistsError, \<lparr>files = fs_conflict, executed = []\<rparr>)"
proof -
  let ?w = "\<lparr>files = fs_conflict, executed = []\<rparr>"
  let ?sim = "[[''t'', ''2023-05''], [''t'', ''2023-05'', ''2023-05-01 10:00:00 001.jpg''],
            [''t'', ''x.jpg'']]"
  let ?mv = "Move [''t'', ''x.jpg''] [''t'', ''2023-05'', ''2023-05-01 10:00:00 001.jpg'']"
  let ?post = "[Move [''t'', ''2023-05'', ''2023-05-01 10:00:00 001.jpg'']
                     [''t'', ''2023-05'', ''2023-05-01 11:00:00 001.jpg'']]"
  have p: "map_sum id commands (prepare env_ex org_ex fs_conflict) = Inr ([] @ ?mv # ?post)"
    by code_simp
  then obtain st where st: "prepare env_ex org_ex (files ?w) = Inr st"
    "commands st = [] @ ?mv # ?post"
    by (cases "prepare env_ex org_ex fs_conflict") auto
  have c: "create_simulacrum (files ?w) (opath org_ex) = Inr ?sim"
    by (simp add: org_ex_def fs_conflict_def create_simulacrum_def taken_def)
  have s: "simulate_commands [] ?sim = (None, ?sim)" by simp
  have f: "fst (simulate ?mv ?sim) = Some FileExistsError" by simp
  from st c s f
    run_simulates_first [of "[]" org_ex ?w FileExistsError False env_ex st ?sim "[]" ?mv ?post ?sim]
  have "run env_ex org_ex False ?w = (Some FileExistsError, ?w)" by blast
  with p c show ?thesis by (simp add: org_ex_def)
qed


end
